theory Spec2Isabelle
  imports Main "HOL-Library.Sublist"
begin

section \<open>Errors\<close>

text \<open>
  Every \<^verbatim>\<open>panic\<close> of \<^verbatim>\<open>rebecca.go\<close> is a constructor carrying the values its
  message is formatted from; the two runtime panics (index and slice bounds) and the
  parser's error complete the type. A function that may panic returns \<open>error + 'a\<close>.
\<close>

datatype error =
    ParseError string                 \<comment> \<open>the error returned by \<^verbatim>\<open>parser.ParseDir\<close>\<close>
  | ExampleNotFound string            \<comment> \<open>\<^verbatim>\<open>Example %s not found.\<close>\<close>
  | DocNotFoundIn string string       \<comment> \<open>\<^verbatim>\<open>Doc for %s not found in %s.\<close>\<close>
  | DocNotFound string                \<comment> \<open>\<^verbatim>\<open>Doc for %s not found.\<close>\<close>
  | AtoiError string                  \<comment> \<open>\<^verbatim>\<open>panic(err)\<close> of \<^verbatim>\<open>mustInt\<close>, with the offending string\<close>
  | EndNotPositive string             \<comment> \<open>\<^verbatim>\<open>End must be greater than 0 in %s\<close>\<close>
  | IndexOutOfRange int int string    \<comment> \<open>\<^verbatim>\<open>Index %d out of range (length %d) in %s\<close>\<close>
  | StartNotLessThanEnd string        \<comment> \<open>\<^verbatim>\<open>Start must be less than end in %s\<close>\<close>
  | InvalidSection string string      \<comment> \<open>\<^verbatim>\<open>Invalid section %s in %s\<close>\<close>
  | RuntimeIndexPanic int int         \<comment> \<open>runtime: index out of range [i] with length n\<close>
  | RuntimeSlicePanic int int int     \<comment> \<open>runtime: slice bounds [a:b] out of range, length n\<close>

definition bind_err :: "error + 'a \<Rightarrow> ('a \<Rightarrow> error + 'b) \<Rightarrow> error + 'b" where
  "bind_err r f = (case r of Inl e \<Rightarrow> Inl e | Inr x \<Rightarrow> f x)"

section \<open>The string functions of the Go library that the code calls\<close>

text \<open>
  A Go string is a sequence of bytes, here a \<open>string\<close>. The cutsets and separators the
  code passes are ASCII, so working on bytes agrees with Go's work on code points.
\<close>

definition Trim :: "string \<Rightarrow> string \<Rightarrow> string" where
  \<comment> \<open>\<^verbatim>\<open>strings.Trim(s, cutset)\<close>\<close>
  "Trim s cutset =
     rev (dropWhile (\<lambda>c. c \<in> set cutset) (rev (dropWhile (\<lambda>c. c \<in> set cutset) s)))"

fun Split :: "string \<Rightarrow> char \<Rightarrow> string list" where
  \<comment> \<open>\<^verbatim>\<open>strings.Split(s, sep)\<close> for a separator of one byte, as in both calls of the code\<close>
  "Split [] sep = [[]]"
| "Split (c # cs) sep =
     (let r = Split cs sep in if c = sep then [] # r else (c # hd r) # tl r)"



definition HasSuffix :: "string \<Rightarrow> string \<Rightarrow> bool" where
  "HasSuffix s suf = suffix suf s"

definition TrimSuffix :: "string \<Rightarrow> string \<Rightarrow> string" where
  "TrimSuffix s suf = (if HasSuffix s suf then take (length s - length suf) s else s)"

definition go_slice :: "'a list \<Rightarrow> int \<Rightarrow> int \<Rightarrow> error + 'a list" where
  \<comment> \<open>\<^verbatim>\<open>xs[a:b]\<close>, which panics unless \<open>0 \<le> a \<le> b \<le> len(xs)\<close>\<close>
  "go_slice xs a b =
     (if 0 \<le> a \<and> a \<le> b \<and> b \<le> int (length xs)
      then Inr (take (nat (b - a)) (drop (nat a) xs))
      else Inl (RuntimeSlicePanic a b (int (length xs))))"

definition go_index :: "'a list \<Rightarrow> int \<Rightarrow> error + 'a" where
  \<comment> \<open>\<^verbatim>\<open>xs[i]\<close>, which panics unless \<open>0 \<le> i < len(xs)\<close>\<close>
  "go_index xs i =
     (if 0 \<le> i \<and> i < int (length xs) then Inr (xs ! nat i)
      else Inl (RuntimeIndexPanic i (int (length xs))))"

section \<open>The regular expressions\<close>

definition is_digit :: "char \<Rightarrow> bool" where
  \<comment> \<open>\<^verbatim>\<open>\d\<close> and \<^verbatim>\<open>[0-9]\<close>: ASCII digits only\<close>
  "is_digit c = (c \<in> set ''0123456789'')"

definition is_word :: "char \<Rightarrow> bool" where
  \<comment> \<open>\<^verbatim>\<open>\w\<close>: \<^verbatim>\<open>[0-9A-Za-z_]\<close>\<close>
  "is_word c =
     (c \<in> set ''0123456789ABCDEFGHIJKLMNOPQRSTUVWXYZabcdefghijklmnopqrstuvwxyz_'')"

definition is_spec_char :: "char \<Rightarrow> bool" where
  \<comment> \<open>\<^verbatim>\<open>[0-9:, ]\<close>\<close>
  "is_spec_char c = (is_digit c \<or> c \<in> set '':, '')"

definition bothRegex :: "string \<Rightarrow> (string \<times> string) option" where
  \<comment> \<open>\<^verbatim>\<open>^(\d+):(\d+)$\<close>: the two captured groups\<close>
  "bothRegex s =
     (let a = takeWhile is_digit s in
      case dropWhile is_digit s of
        [] \<Rightarrow> None
      | c # b \<Rightarrow> if c = CHR '':'' \<and> a \<noteq> [] \<and> b \<noteq> [] \<and> list_all is_digit b
                 then Some (a, b) else None)"

definition fromRegex :: "string \<Rightarrow> string option" where
  \<comment> \<open>\<^verbatim>\<open>^(\d+):$\<close>\<close>
  "fromRegex s =
     (let a = takeWhile is_digit s in
      if a \<noteq> [] \<and> dropWhile is_digit s = '':'' then Some a else None)"

definition toRegex :: "string \<Rightarrow> string option" where
  \<comment> \<open>\<^verbatim>\<open>^:(\d+)$\<close>\<close>
  "toRegex s =
     (case s of
        [] \<Rightarrow> None
      | c # b \<Rightarrow> if c = CHR '':'' \<and> b \<noteq> [] \<and> list_all is_digit b then Some b else None)"

definition singleRegex :: "string \<Rightarrow> string option" where
  \<comment> \<open>\<^verbatim>\<open>^(\d+)$\<close>\<close>
  "singleRegex s = (if s \<noteq> [] \<and> list_all is_digit s then Some s else None)"

text \<open>
  \<^verbatim>\<open>docRegex = (\w+)\[([0-9:, ]+)\]\<close> is not anchored: \<^verbatim>\<open>FindStringSubmatch\<close>
  returns the leftmost match. At a given start both repetitions are greedy, and a shorter
  repetition can never be followed by the bracket the pattern asks for (the next byte would
  still belong to the class), so the match at a start, if any, takes the longest run of
  each class.
\<close>

definition docRegex_at :: "string \<Rightarrow> (string \<times> string) option" where
  "docRegex_at s =
     (let w = takeWhile is_word s in
      case dropWhile is_word s of
        [] \<Rightarrow> None
      | c # r \<Rightarrow>
          if w = [] \<or> c \<noteq> CHR ''['' then None
          else (let sp = takeWhile is_spec_char r in
                case dropWhile is_spec_char r of
                  [] \<Rightarrow> None
                | d # _ \<Rightarrow> if sp \<noteq> [] \<and> d = CHR '']'' then Some (w, sp) else None))"

fun docRegex :: "string \<Rightarrow> (string \<times> string) option" where
  "docRegex [] = None"
| "docRegex (c # cs) =
     (case docRegex_at (c # cs) of Some r \<Rightarrow> Some r | None \<Rightarrow> docRegex cs)"

section \<open>The section slice resolver\<close>

definition digit_val :: "char \<Rightarrow> int" where
  "digit_val c = int (of_char c) - 48"

definition digits_val :: "string \<Rightarrow> int" where
  "digits_val ds = foldl (\<lambda>acc c. 10 * acc + digit_val c) 0 ds"

definition maxInt :: int where
  \<comment> \<open>the largest \<^verbatim>\<open>int\<close> of a 64-bit platform\<close>
  "maxInt = 9223372036854775807"

definition mustInt :: "string \<Rightarrow> error + int" where
  \<comment> \<open>\<^verbatim>\<open>strconv.Atoi\<close>: an optional sign, then digits; out of range is an error\<close>
  "mustInt s =
     (let neg = (case s of [] \<Rightarrow> False | c # _ \<Rightarrow> c = CHR ''-'');
          ds = (case s of [] \<Rightarrow> [] | c # r \<Rightarrow> if c = CHR ''+'' \<or> c = CHR ''-'' then r else s)
      in if ds = [] \<or> \<not> list_all is_digit ds then Inl (AtoiError s)
         else if neg then
           (if digits_val ds \<le> maxInt + 1 then Inr (- digits_val ds) else Inl (AtoiError s))
         else
           (if digits_val ds \<le> maxInt then Inr (digits_val ds) else Inl (AtoiError s)))"

definition checkBounds :: "int \<Rightarrow> int \<Rightarrow> int \<Rightarrow> string \<Rightarrow> error + unit" where
  "checkBounds start end len spec =
     (if end = 0 then Inl (EndNotPositive spec)
      else if start \<ge> len then Inl (IndexOutOfRange start len spec)
      else if end \<ge> len then Inl (IndexOutOfRange end len spec)
      else if end > -1 \<and> start \<ge> end then Inl (StartNotLessThanEnd spec)
      else Inr ())"

definition sentances :: "string \<Rightarrow> string list" where
  \<comment> \<open>the first loop of \<^verbatim>\<open>extractSections\<close>: the pieces are kept as they were split\<close>
  "sentances comment = filter (\<lambda>s. Trim s [CHR '' '', CHR 0x0A] \<noteq> []) (Split comment CHR ''.'')"

definition section_arr :: "string \<Rightarrow> string list \<Rightarrow> string \<Rightarrow> error + string list" where
  \<comment> \<open>the \<^verbatim>\<open>if\<close> chain of the second loop: the slice \<^verbatim>\<open>arr\<close> that one token selects\<close>
  "section_arr full sents section =
     (let n = int (length sents) in
      case bothRegex section of
        Some (m1, m2) \<Rightarrow>
          bind_err (mustInt m1) (\<lambda>a. bind_err (mustInt m2) (\<lambda>b.
          bind_err (checkBounds a b n full) (\<lambda>_. go_slice sents a b)))
      | None \<Rightarrow>
      (case fromRegex section of
        Some m1 \<Rightarrow>
          bind_err (mustInt m1) (\<lambda>a.
          bind_err (checkBounds a (-1) n full) (\<lambda>_. go_slice sents a n))
      | None \<Rightarrow>
      (case toRegex section of
        Some m1 \<Rightarrow>
          bind_err (mustInt m1) (\<lambda>b.
          bind_err (checkBounds (-1) b n full) (\<lambda>_. go_slice sents 0 b))
      | None \<Rightarrow>
      (case singleRegex section of
        Some m1 \<Rightarrow>
          bind_err (mustInt m1) (\<lambda>a.
          bind_err (checkBounds a (-1) n full) (\<lambda>_.
          bind_err (go_index sents a) (\<lambda>s. Inr [s])))
      | None \<Rightarrow> Inl (InvalidSection section full)))))"

definition append_arr :: "string \<Rightarrow> string list \<Rightarrow> string" where
  \<comment> \<open>the inner loop: \<^verbatim>\<open>out += s + "."\<close> for every \<open>s\<close> that is not blank\<close>
  "append_arr out arr =
     foldl (\<lambda>out s. if Trim s [CHR '' '', CHR 0x0A] \<noteq> [] then out @ s @ ''.'' else out) out arr"

fun sections_loop :: "string \<Rightarrow> string list \<Rightarrow> string list \<Rightarrow> string \<Rightarrow> error + string" where
  "sections_loop full sents [] out = Inr out"
| "sections_loop full sents (section # rest) out =
     (case section_arr full sents section of
        Inl e \<Rightarrow> Inl e
      | Inr arr \<Rightarrow> sections_loop full sents rest (append_arr out arr))"

definition extractSections :: "string \<Rightarrow> string \<Rightarrow> string \<Rightarrow> error + string" where
  "extractSections full sections comment =
     bind_err (sections_loop full (sentances comment) (Split sections CHR '','') [])
       (\<lambda>out. Inr (Trim out '' ''))"

definition is_number :: "string \<Rightarrow> bool" where
  \<comment> \<open>the strings that \<^verbatim>\<open>\d+\<close> captures\<close>
  "is_number ds = (ds \<noteq> [] \<and> list_all is_digit ds)"

section \<open>The index\<close>

text \<open>
  The parsed source, as far as \<^verbatim>\<open>scanPkg\<close> looks at it. A doc comment is kept as the text
  that \<^verbatim>\<open>Doc.Text()\<close> returns, which is empty when the comment is absent. Every kind of
  expression other than an identifier, a star expression and a struct type is
  \<open>OtherExpr\<close>, with its source text.
\<close>

datatype expr =
    Ident string
  | StarExpr expr
  | StructType "field list"
  | OtherExpr string
and field =
    AstField string "string list" expr  \<comment> \<open>\<^verbatim>\<open>ast.Field\<close>: doc text, names, type\<close>

datatype spec =
    TypeSpec string expr      \<comment> \<open>name and type\<close>
  | ValueSpec "string list"   \<comment> \<open>names\<close>
  | ImportSpec string

datatype decl =
    FuncDecl string "field list option" string  \<comment> \<open>doc text, receiver list if any, name\<close>
  | GenDecl string "spec list"                   \<comment> \<open>doc text, specs\<close>
  | BadDecl

record File =
  Doc :: string
  Decls :: "decl list"

text \<open>
  \<^verbatim>\<open>ast.Package.Files\<close> and the result of \<^verbatim>\<open>parser.ParseDir\<close> are Go maps; a list of
  pairs gives them in the order in which the \<^verbatim>\<open>range\<close> loop visits them.
\<close>

type_synonym package = "(string \<times> File) list"

record Example =
  ExName :: string
  Printed :: string  \<comment> \<open>what \<^verbatim>\<open>printer.Fprint\<close> writes for the example's code with its comments\<close>
  Output :: string

text \<open>The library functions whose results the code only passes on.\<close>

record externals =
  ParseDir :: "string \<Rightarrow> string + (string \<times> package) list"
  Fprint :: "expr \<Rightarrow> string"
  IsExported :: "string \<Rightarrow> bool"
  DocExamples :: "File \<Rightarrow> Example list"

record CodeMap =
  pkg :: string
  dir :: string
  Name :: string
  Examples :: "string \<rightharpoonup> Example"
  Comments :: "string \<rightharpoonup> string"

definition set_comment :: "CodeMap \<Rightarrow> string \<Rightarrow> string \<Rightarrow> CodeMap" where
  \<comment> \<open>\<^verbatim>\<open>m.Comments[name] = text\<close>\<close>
  "set_comment m name text = m\<lparr>Comments := (Comments m)(name \<mapsto> text)\<rparr>"

definition set_example :: "CodeMap \<Rightarrow> Example \<Rightarrow> CodeMap" where
  \<comment> \<open>\<^verbatim>\<open>m.Examples["Example"+ex.Name] = ex\<close>\<close>
  "set_example m ex = m\<lparr>Examples := (Examples m)(''Example'' @ ExName ex \<mapsto> ex)\<rparr>"

fun scanTests :: "externals \<Rightarrow> package \<Rightarrow> CodeMap \<Rightarrow> error + CodeMap" where
  "scanTests ext [] m = Inr m"
| "scanTests ext ((name, f) # rest) m =
     (if \<not> HasSuffix name ''_test.go'' then scanTests ext rest m
      else scanTests ext rest (foldl set_example m (DocExamples ext f)))"

fun scanFields :: "externals \<Rightarrow> string \<Rightarrow> field list \<Rightarrow> CodeMap \<Rightarrow> error + CodeMap" where
  "scanFields ext name [] m = Inr m"
| "scanFields ext name (AstField doc names ty # rest) m =
     (if doc = [] then scanFields ext name rest m
      else (case names of
              [] \<Rightarrow> Inl (RuntimeIndexPanic 0 0)
            | n # _ \<Rightarrow>
                if IsExported ext n
                then scanFields ext name rest (set_comment m (name @ ''.'' @ n) doc)
                else scanFields ext name rest m))"

fun scanDecl :: "externals \<Rightarrow> decl \<Rightarrow> CodeMap \<Rightarrow> error + CodeMap" where
  "scanDecl ext (FuncDecl doc recv name) m =
     (if doc = [] then Inr m
      else (case recv of
              None \<Rightarrow> Inr (set_comment m name doc)
            | Some l \<Rightarrow>
                (case l of
                   [] \<Rightarrow> Inl (RuntimeIndexPanic 0 0)
                 | AstField _ _ e # _ \<Rightarrow>
                     (let e' = (case e of StarExpr x \<Rightarrow> x | _ \<Rightarrow> e)
                      in Inr (set_comment m (Fprint ext e' @ ''.'' @ name) doc)))))"
| "scanDecl ext (GenDecl doc specs) m =
     (case specs of
        [] \<Rightarrow> Inl (RuntimeIndexPanic 0 0)
      | s # _ \<Rightarrow>
          (case s of
             TypeSpec name t \<Rightarrow>
               (let m1 = set_comment m name doc
                in case t of StructType flds \<Rightarrow> scanFields ext name flds m1 | _ \<Rightarrow> Inr m1)
           | ValueSpec names \<Rightarrow>
               (if doc = [] then Inr m
                else (case names of [] \<Rightarrow> Inr m | n # _ \<Rightarrow> Inr (set_comment m n doc)))
           | ImportSpec _ \<Rightarrow> Inr m))"
| "scanDecl ext BadDecl m = Inr m"

fun scanDecls :: "externals \<Rightarrow> decl list \<Rightarrow> CodeMap \<Rightarrow> error + CodeMap" where
  "scanDecls ext [] m = Inr m"
| "scanDecls ext (d # ds) m = bind_err (scanDecl ext d m) (scanDecls ext ds)"

definition file_key :: "string \<Rightarrow> string" where
  \<comment> \<open>the file name after the last \<^verbatim>\<open>/\<close> of the path, every \<^verbatim>\<open>.\<close> replaced by \<^verbatim>\<open>_\<close>\<close>
  "file_key fpath =
     map (\<lambda>c. if c = CHR ''.'' then CHR ''_'' else c)
       (rev (takeWhile (\<lambda>c. c \<noteq> CHR ''/'') (rev fpath)))"

fun scanPkg :: "externals \<Rightarrow> package \<Rightarrow> CodeMap \<Rightarrow> error + CodeMap" where
  "scanPkg ext [] m = Inr m"
| "scanPkg ext ((fpath, f) # rest) m =
     bind_err
       (scanDecls ext (Decls f) (if Doc f \<noteq> [] then set_comment m (file_key fpath) (Doc f) else m))
       (scanPkg ext rest)"

fun scanPkgs :: "externals \<Rightarrow> (string \<times> package) list \<Rightarrow> CodeMap \<Rightarrow> error + CodeMap" where
  \<comment> \<open>the loop of \<^verbatim>\<open>scanDir\<close> over the parsed packages\<close>
  "scanPkgs ext [] m = Inr m"
| "scanPkgs ext ((name, p) # rest) m =
     bind_err (scanTests ext p (m\<lparr>Name := TrimSuffix name ''_test''\<rparr>)) (\<lambda>m1.
     bind_err (scanPkg ext p m1) (scanPkgs ext rest))"

definition scanDir :: "externals \<Rightarrow> CodeMap \<Rightarrow> error + CodeMap" where
  "scanDir ext m =
     (case ParseDir ext (dir m) of
        Inl err \<Rightarrow> Inl (ParseError err)
      | Inr pkgs \<Rightarrow> scanPkgs ext pkgs m)"

definition NewCodeMap :: "externals \<Rightarrow> string \<Rightarrow> string \<Rightarrow> error + CodeMap" where
  "NewCodeMap ext p d =
     scanDir ext \<lparr>pkg = p, dir = d, Name = [], Examples = Map.empty, Comments = Map.empty\<rparr>"

section \<open>The lookups\<close>

definition DocFunc :: "CodeMap \<Rightarrow> string \<Rightarrow> error + string" where
  "DocFunc m inp =
     (case docRegex inp of
        Some (name, secs) \<Rightarrow>
          (case Comments m name of
             None \<Rightarrow> Inl (DocNotFoundIn name inp)
           | Some c \<Rightarrow> extractSections inp secs c)
      | None \<Rightarrow>
          (case Comments m inp of
             None \<Rightarrow> Inl (DocNotFound inp)
           | Some c \<Rightarrow> Inr (Trim c [CHR 0x0A])))"



definition OutputFunc :: "CodeMap \<Rightarrow> string \<Rightarrow> error + string" where
  "OutputFunc m inp =
     (case Examples m inp of
        None \<Rightarrow> Inl (ExampleNotFound inp)
      | Some e \<Rightarrow> Inr (Trim (Output e) [CHR 0x0A]))"

section \<open>An environment for the examples\<close>

text \<open>
  The examples below run the index build on small parsed packages. They use this instance
  of the library functions, which covers what the examples hold: the printer writes an
  identifier as its name and an \<open>OtherExpr\<close> as its source text (the examples print no
  star expression and no struct type, for which it gives the empty string), a name is
  exported when it starts with an ASCII capital (the names of the examples are ASCII), and
  no file holds examples.
\<close>

definition example_Fprint :: "expr \<Rightarrow> string" where
  "example_Fprint e = (case e of Ident n \<Rightarrow> n | OtherExpr s \<Rightarrow> s | _ \<Rightarrow> [])"

definition example_externals :: "(string \<times> package) list \<Rightarrow> externals" where
  "example_externals pkgs =
     \<lparr>ParseDir = (\<lambda>d. Inr pkgs),
      Fprint = example_Fprint,
      IsExported = (\<lambda>n. case n of [] \<Rightarrow> False
                              | c # _ \<Rightarrow> c \<in> set ''ABCDEFGHIJKLMNOPQRSTUVWXYZ''),
      DocExamples = (\<lambda>f. [])\<rparr>"

definition example_index :: "(string \<rightharpoonup> string) \<Rightarrow> CodeMap" where
  \<comment> \<open>an index with the given doc texts and no examples\<close>
  "example_index cs = \<lparr>pkg = [], dir = [], Name = [], Examples = Map.empty, Comments = cs\<rparr>"


section \<open>Facts about the library functions and the regular expressions\<close>

lemma Split_no_sep: "sep \<notin> set s \<Longrightarrow> Split s sep = [s]"
  by (induction s) (auto simp: Let_def)

lemma not_digit_colon: "\<not> is_digit CHR '':''"
  by (simp add: is_digit_def)

lemma not_digit_comma: "\<not> is_digit CHR '',''"
  by (simp add: is_digit_def)

lemma takeWhile_digits:
  "list_all is_digit a \<Longrightarrow> \<not> is_digit c \<Longrightarrow> takeWhile is_digit (a @ c # r) = a"
  by (induction a) auto

lemma dropWhile_digits:
  "list_all is_digit a \<Longrightarrow> \<not> is_digit c \<Longrightarrow> dropWhile is_digit (a @ c # r) = c # r"
  by (induction a) auto

lemma dropWhile_all: "list_all P a \<Longrightarrow> dropWhile P a = []"
  by (induction a) auto

lemma bothRegex_both:
  "is_number a \<Longrightarrow> is_number b \<Longrightarrow> bothRegex (a @ '':'' @ b) = Some (a, b)"
  by (simp add: bothRegex_def is_number_def takeWhile_digits dropWhile_digits not_digit_colon)

lemma bothRegex_from: "is_number a \<Longrightarrow> bothRegex (a @ '':'') = None"
  by (simp add: bothRegex_def is_number_def takeWhile_digits dropWhile_digits not_digit_colon)

lemma fromRegex_from: "is_number a \<Longrightarrow> fromRegex (a @ '':'') = Some a"
  by (simp add: fromRegex_def is_number_def takeWhile_digits dropWhile_digits not_digit_colon)

lemma bothRegex_to: "is_number b \<Longrightarrow> bothRegex ('':'' @ b) = None"
  by (simp add: bothRegex_def is_number_def not_digit_colon)

lemma fromRegex_to: "is_number b \<Longrightarrow> fromRegex ('':'' @ b) = None"
  by (simp add: fromRegex_def is_number_def not_digit_colon)

lemma toRegex_to: "is_number b \<Longrightarrow> toRegex ('':'' @ b) = Some b"
  by (simp add: toRegex_def is_number_def)

lemma bothRegex_single: "is_number a \<Longrightarrow> bothRegex a = None"
  by (simp add: bothRegex_def is_number_def dropWhile_all)

lemma fromRegex_single: "is_number a \<Longrightarrow> fromRegex a = None"
  by (simp add: fromRegex_def is_number_def dropWhile_all)

lemma toRegex_single: "is_number a \<Longrightarrow> toRegex a = None"
  by (cases a) (auto simp: toRegex_def is_number_def not_digit_colon)

lemma singleRegex_single: "is_number a \<Longrightarrow> singleRegex a = Some a"
  by (simp add: singleRegex_def is_number_def)

lemma digit_val_nonneg: "is_digit c \<Longrightarrow> 0 \<le> digit_val c"
  by (auto simp: is_digit_def digit_val_def)

lemma foldl_digits_nonneg:
  "list_all is_digit ds \<Longrightarrow> 0 \<le> acc \<Longrightarrow> 0 \<le> foldl (\<lambda>acc c. 10 * acc + digit_val c) acc ds"
  by (induction ds arbitrary: acc) (auto simp: digit_val_nonneg)

lemma digits_val_nonneg: "is_number ds \<Longrightarrow> 0 \<le> digits_val ds"
  by (simp add: digits_val_def foldl_digits_nonneg is_number_def)

lemma mustInt_number:
  "is_number a \<Longrightarrow>
   mustInt a = (if digits_val a \<le> maxInt then Inr (digits_val a) else Inl (AtoiError a))"
  by (cases a) (auto simp: mustInt_def is_number_def is_digit_def)

lemma number_no_comma: "is_number a \<Longrightarrow> CHR '','' \<notin> set a"
  using not_digit_comma by (auto simp: is_number_def list_all_iff)

section \<open>What one token selects\<close>

lemma section_arr_both:
  assumes "is_number a" "is_number b" "digits_val a \<le> maxInt" "digits_val b \<le> maxInt"
  shows "section_arr full sents (a @ '':'' @ b) =
     (if digits_val b = 0 then Inl (EndNotPositive full)
      else if digits_val a \<ge> int (length sents)
        then Inl (IndexOutOfRange (digits_val a) (int (length sents)) full)
      else if digits_val b \<ge> int (length sents)
        then Inl (IndexOutOfRange (digits_val b) (int (length sents)) full)
      else if digits_val a \<ge> digits_val b then Inl (StartNotLessThanEnd full)
      else Inr (take (nat (digits_val b - digits_val a)) (drop (nat (digits_val a)) sents)))"
proof -
  have "bothRegex (a @ CHR '':'' # b) = Some (a, b)"
    using bothRegex_both[OF assms(1,2)] by simp
  then show ?thesis
    using assms digits_val_nonneg[OF assms(1)] digits_val_nonneg[OF assms(2)]
    by (simp add: section_arr_def mustInt_number bind_err_def checkBounds_def go_slice_def)
qed

lemma section_arr_from:
  assumes "is_number a" "digits_val a \<le> maxInt"
  shows "section_arr full sents (a @ '':'') =
     (if digits_val a \<ge> int (length sents)
        then Inl (IndexOutOfRange (digits_val a) (int (length sents)) full)
      else Inr (drop (nat (digits_val a)) sents))"
proof -
  have "bothRegex (a @ [CHR '':'']) = None" "fromRegex (a @ [CHR '':'']) = Some a"
    using bothRegex_from[OF assms(1)] fromRegex_from[OF assms(1)] by simp_all
  then show ?thesis
    using assms digits_val_nonneg[OF assms(1)]
    by (simp add: section_arr_def mustInt_number bind_err_def checkBounds_def go_slice_def)
qed

lemma section_arr_to:
  assumes "is_number b" "digits_val b \<le> maxInt"
  shows "section_arr full sents ('':'' @ b) =
     (if digits_val b = 0 then Inl (EndNotPositive full)
      else if digits_val b \<ge> int (length sents)
        then Inl (IndexOutOfRange (digits_val b) (int (length sents)) full)
      else Inr (take (nat (digits_val b)) sents))"
proof -
  have "bothRegex (CHR '':'' # b) = None" "fromRegex (CHR '':'' # b) = None"
    "toRegex (CHR '':'' # b) = Some b"
    using bothRegex_to[OF assms(1)] fromRegex_to[OF assms(1)] toRegex_to[OF assms(1)] by simp_all
  then show ?thesis
    using assms digits_val_nonneg[OF assms(1)]
    by (simp add: section_arr_def mustInt_number bind_err_def checkBounds_def go_slice_def)
qed

lemma section_arr_single:
  assumes "is_number a" "digits_val a \<le> maxInt"
  shows "section_arr full sents a =
     (if digits_val a \<ge> int (length sents)
        then Inl (IndexOutOfRange (digits_val a) (int (length sents)) full)
      else Inr [sents ! nat (digits_val a)])"
  using assms digits_val_nonneg[OF assms(1)]
  by (simp add: section_arr_def bothRegex_single fromRegex_single toRegex_single
      singleRegex_single mustInt_number bind_err_def checkBounds_def go_index_def)

lemma section_arr_invalid:
  "bothRegex t = None \<Longrightarrow> fromRegex t = None \<Longrightarrow> toRegex t = None \<Longrightarrow> singleRegex t = None
   \<Longrightarrow> section_arr full sents t = Inl (InvalidSection t full)"
  by (simp add: section_arr_def)

lemma go_slice_subset: "go_slice xs a b = Inr ys \<Longrightarrow> set ys \<subseteq> set xs"
  by (auto simp: go_slice_def split: if_splits dest: in_set_takeD in_set_dropD)

lemma go_index_mem: "go_index xs a = Inr y \<Longrightarrow> y \<in> set xs"
  by (auto simp: go_index_def split: if_splits)

lemma section_arr_subset:
  assumes "section_arr full sents t = Inr arr"
  shows "set arr \<subseteq> set sents"
  using assms
  by (auto simp: section_arr_def bind_err_def Let_def
      split: option.splits sum.splits prod.splits dest: go_slice_subset go_index_mem)

section \<open>The loops of the resolver\<close>

lemma sentances_not_blank: "s \<in> set (sentances c) \<Longrightarrow> Trim s [CHR '' '', CHR 0x0A] \<noteq> []"
  by (simp add: sentances_def)

lemma append_arr_concat:
  "\<forall>s \<in> set arr. Trim s [CHR '' '', CHR 0x0A] \<noteq> [] \<Longrightarrow>
   append_arr out arr = out @ concat (map (\<lambda>s. s @ ''.'') arr)"
  unfolding append_arr_def by (induction arr arbitrary: out) auto

lemma sections_loop_Inr:
  assumes "\<forall>s \<in> set sents. Trim s [CHR '' '', CHR 0x0A] \<noteq> []"
    and "map (section_arr full sents) toks = map Inr arrs"
  shows "sections_loop full sents toks out =
     Inr (out @ concat (map (\<lambda>arr. concat (map (\<lambda>s. s @ ''.'') arr)) arrs))"
  using assms(2)
proof (induction toks arbitrary: arrs out)
  case Nil
  then show ?case by simp
next
  case (Cons t toks)
  then obtain arr rest where arrs: "arrs = arr # rest"
    and t: "section_arr full sents t = Inr arr"
    and rest: "map (section_arr full sents) toks = map Inr rest"
    by (cases arrs) auto
  have "\<forall>s \<in> set arr. Trim s [CHR '' '', CHR 0x0A] \<noteq> []"
    using section_arr_subset[OF t] assms(1) by auto
  then have "append_arr out arr = out @ concat (map (\<lambda>s. s @ ''.'') arr)"
    by (rule append_arr_concat)
  then show ?case
    using Cons.IH[OF rest] t arrs by simp
qed

lemma sections_loop_Inl:
  assumes "list_all (\<lambda>u. isl (section_arr full sents u) = False) pre"
    and "section_arr full sents t = Inl e"
  shows "sections_loop full sents (pre @ t # post) out = Inl e"
  using assms(1)
proof (induction pre arbitrary: out)
  case Nil
  then show ?case using assms(2) by simp
next
  case (Cons u pre)
  then show ?case by (cases "section_arr full sents u") auto
qed

lemma take_drop_nth_upt:
  "j \<le> length xs \<Longrightarrow> take (j - i) (drop i xs) = map ((!) xs) [i..<j]"
  by (simp add: list_eq_iff_nth_eq)

section \<open>The claims about the slice resolver\<close>

text \<open>
  C1, as the spec states it, lets the end bound of a token \<open>i:j\<close> reach the sentence count.
  \<^verbatim>\<open>checkBounds\<close> rejects an end bound that is not below the count: against the three
  sentences of \<open>A. B. C.\<close> the token \<open>0:3\<close> panics with the index error for 3.
\<close>

theorem slice_end_at_count_counterexample:
  "length (sentances ''A. B. C.'') = 3 \<and>
   extractSections ''F[0:3]'' ''0:3'' ''A. B. C.'' = Inl (IndexOutOfRange 3 3 ''F[0:3]'')"
  by code_simp

text \<open>
  C1, amended: for a token \<open>i:j\<close> with \<open>0 \<le> i < j < N\<close>, where \<open>N\<close> is the sentence count,
  resolving succeeds and returns the sentences at the positions \<open>i, \<dots>, j - 1\<close>, each
  followed by the terminator, concatenated in order, none left out and none repeated; the
  leading and trailing spaces of the concatenation are trimmed. The token is any pair of
  digit strings that denote \<open>i\<close> and \<open>j\<close>.
\<close>

theorem slice_both_in_range:
  assumes "is_number a" and "is_number b"
    and "digits_val a = int i" and "digits_val b = int j"
    and "i < j" and "j < length (sentances c)"
    and "int (length (sentances c)) \<le> maxInt"
  shows "extractSections full (a @ '':'' @ b) c =
     Inr (Trim (concat (map (\<lambda>k. sentances c ! k @ ''.'') [i..<j])) '' '')"
proof -
  let ?t = "a @ '':'' @ b"
  have nc: "CHR '','' \<notin> set ?t"
    using number_no_comma[OF assms(1)] number_no_comma[OF assms(2)] by simp
  have a: "digits_val a \<le> maxInt" and b: "digits_val b \<le> maxInt"
    using assms(3-7) by linarith+
  have "section_arr full (sentances c) ?t =
      Inr (take (nat (digits_val b - digits_val a)) (drop (nat (digits_val a)) (sentances c)))"
    using section_arr_both[OF assms(1,2) a b, of full "sentances c"] assms(3-6) by simp
  also have "take (nat (digits_val b - digits_val a)) (drop (nat (digits_val a)) (sentances c)) =
      map ((!) (sentances c)) [i..<j]"
    using take_drop_nth_upt[of j "sentances c" i] assms(3-6) by (simp add: nat_diff_distrib')
  finally have "map (section_arr full (sentances c)) (Split ?t CHR '','') =
      map Inr [map ((!) (sentances c)) [i..<j]]"
    using Split_no_sep[OF nc] by simp
  then have "sections_loop full (sentances c) (Split ?t CHR '','') [] =
      Inr ([] @ concat (map (\<lambda>arr. concat (map (\<lambda>s. s @ ''.'') arr))
        [map ((!) (sentances c)) [i..<j]]))"
    by (intro sections_loop_Inr) (auto dest: sentances_not_blank)
  then show ?thesis
    by (simp add: extractSections_def bind_err_def comp_def)
qed

theorem slice_both_in_range_witness:
  "is_number ''0'' \<and> is_number ''2'' \<and> digits_val ''0'' = int 0 \<and> digits_val ''2'' = int 2 \<and>
   (0::nat) < 2 \<and> 2 < length (sentances ''A. B. C.'') \<and>
   int (length (sentances ''A. B. C.'')) \<le> maxInt \<and>
   extractSections ''F[0:2]'' (''0'' @ '':'' @ ''2'') ''A. B. C.'' = Inr ''A. B.''"
proof -
  have h1: "is_number ''0''" and h2: "is_number ''2''" by code_simp+
  have h3: "digits_val ''0'' = int 0" and h4: "digits_val ''2'' = int 2" by code_simp+
  have h5: "(0::nat) < 2" by simp
  have h6: "2 < length (sentances ''A. B. C.'')" by code_simp
  have h7: "int (length (sentances ''A. B. C.'')) \<le> maxInt" by code_simp
  have v: "Trim (concat (map (\<lambda>k. sentances ''A. B. C.'' ! k @ ''.'') [0..<2])) '' '' = ''A. B.''"
    by code_simp
  show ?thesis
    using slice_both_in_range[OF h1 h2 h3 h4 h5 h6 h7, of "''F[0:2]''"] h1 h2 h3 h4 h6 h7
    unfolding v by simp
qed

text \<open>
  C2, as the spec states it, gives every token with two explicit bounds and a start not
  below its end the order error. The checks run in a fixed order and the first that fails
  decides: against the two sentences of \<open>A. B.\<close> the token \<open>2:1\<close> fails the range check
  of its start first and never reaches the order check.
\<close>

theorem order_error_counterexample:
  "length (sentances ''A. B.'') = 2 \<and>
   bothRegex ''2:1'' = Some (''2'', ''1'') \<and>
   extractSections ''F[2:1]'' ''2:1'' ''A. B.'' = Inl (IndexOutOfRange 2 2 ''F[2:1]'') \<and>
   extractSections ''F[2:1]'' ''2:1'' ''A. B.'' \<noteq> Inl (StartNotLessThanEnd ''F[2:1]'')"
  by code_simp

text \<open>
  C2, amended. With \<open>N\<close> the sentence count and every bound small enough for a Go
  \<^verbatim>\<open>int\<close>: a token of none of the four forms fails with the invalid-section error, which
  names the token and the full spec. Otherwise the checks run in this order and the first
  that fails decides the error: an explicit end bound of zero fails with the error that the
  end must be greater than zero, which names the full spec only; an explicit start bound
  \<open>\<ge> N\<close> fails with the index error naming that bound, \<open>N\<close> and the full spec; an explicit
  end bound \<open>\<ge> N\<close> fails with the index error naming that bound, \<open>N\<close> and the full spec;
  two explicit bounds with start \<open>\<ge>\<close> end fail with the order error. Only a token that
  passes them all is sliced. The tokens are checked one after the other in the order
  listed, and the error of the first token that fails is the error of the whole call.
\<close>

theorem slice_token_checks:
  "(bothRegex t = None \<and> fromRegex t = None \<and> toRegex t = None \<and> singleRegex t = None \<longrightarrow>
      section_arr full sents t = Inl (InvalidSection t full))
   \<and> (is_number a \<and> is_number b \<and> digits_val a \<le> maxInt \<and> digits_val b \<le> maxInt \<longrightarrow>
      section_arr full sents (a @ '':'' @ b) =
        (if digits_val b = 0 then Inl (EndNotPositive full)
         else if digits_val a \<ge> int (length sents)
           then Inl (IndexOutOfRange (digits_val a) (int (length sents)) full)
         else if digits_val b \<ge> int (length sents)
           then Inl (IndexOutOfRange (digits_val b) (int (length sents)) full)
         else if digits_val a \<ge> digits_val b then Inl (StartNotLessThanEnd full)
         else Inr (take (nat (digits_val b - digits_val a)) (drop (nat (digits_val a)) sents))))
   \<and> (is_number a \<and> digits_val a \<le> maxInt \<longrightarrow>
      section_arr full sents (a @ '':'') =
        (if digits_val a \<ge> int (length sents)
           then Inl (IndexOutOfRange (digits_val a) (int (length sents)) full)
         else Inr (drop (nat (digits_val a)) sents)))
   \<and> (is_number b \<and> digits_val b \<le> maxInt \<longrightarrow>
      section_arr full sents ('':'' @ b) =
        (if digits_val b = 0 then Inl (EndNotPositive full)
         else if digits_val b \<ge> int (length sents)
           then Inl (IndexOutOfRange (digits_val b) (int (length sents)) full)
         else Inr (take (nat (digits_val b)) sents)))
   \<and> (is_number a \<and> digits_val a \<le> maxInt \<longrightarrow>
      section_arr full sents a =
        (if digits_val a \<ge> int (length sents)
           then Inl (IndexOutOfRange (digits_val a) (int (length sents)) full)
         else Inr [sents ! nat (digits_val a)]))
   \<and> (Split sections CHR '','' = pre @ t # post \<and>
      list_all (\<lambda>u. isl (section_arr full (sentances c) u) = False) pre \<and>
      section_arr full (sentances c) t = Inl e \<longrightarrow>
      extractSections full sections c = Inl e)"
proof (intro conjI impI)
  assume "bothRegex t = None \<and> fromRegex t = None \<and> toRegex t = None \<and> singleRegex t = None"
  then show "section_arr full sents t = Inl (InvalidSection t full)"
    by (simp add: section_arr_invalid)
next
  assume "is_number a \<and> is_number b \<and> digits_val a \<le> maxInt \<and> digits_val b \<le> maxInt"
  then show "section_arr full sents (a @ '':'' @ b) =
        (if digits_val b = 0 then Inl (EndNotPositive full)
         else if digits_val a \<ge> int (length sents)
           then Inl (IndexOutOfRange (digits_val a) (int (length sents)) full)
         else if digits_val b \<ge> int (length sents)
           then Inl (IndexOutOfRange (digits_val b) (int (length sents)) full)
         else if digits_val a \<ge> digits_val b then Inl (StartNotLessThanEnd full)
         else Inr (take (nat (digits_val b - digits_val a)) (drop (nat (digits_val a)) sents)))"
    using section_arr_both by blast
next
  assume "is_number a \<and> digits_val a \<le> maxInt"
  then show "section_arr full sents (a @ '':'') =
        (if digits_val a \<ge> int (length sents)
           then Inl (IndexOutOfRange (digits_val a) (int (length sents)) full)
         else Inr (drop (nat (digits_val a)) sents))"
    using section_arr_from by blast
next
  assume "is_number b \<and> digits_val b \<le> maxInt"
  then show "section_arr full sents ('':'' @ b) =
        (if digits_val b = 0 then Inl (EndNotPositive full)
         else if digits_val b \<ge> int (length sents)
           then Inl (IndexOutOfRange (digits_val b) (int (length sents)) full)
         else Inr (take (nat (digits_val b)) sents))"
    using section_arr_to by blast
next
  assume "is_number a \<and> digits_val a \<le> maxInt"
  then show "section_arr full sents a =
        (if digits_val a \<ge> int (length sents)
           then Inl (IndexOutOfRange (digits_val a) (int (length sents)) full)
         else Inr [sents ! nat (digits_val a)])"
    using section_arr_single by blast
next
  assume "Split sections CHR '','' = pre @ t # post \<and>
      list_all (\<lambda>u. isl (section_arr full (sentances c) u) = False) pre \<and>
      section_arr full (sentances c) t = Inl e"
  then show "extractSections full sections c = Inl e"
    by (simp add: extractSections_def bind_err_def sections_loop_Inl)
qed

theorem slice_token_checks_witness:
  "section_arr ''F[x]'' [''A'', '' B'', '' C''] ''x'' = Inl (InvalidSection ''x'' ''F[x]'') \<and>
   section_arr ''F[2:1]'' [''A'', '' B'', '' C''] (''2'' @ '':'' @ ''1'') =
     Inl (StartNotLessThanEnd ''F[2:1]'') \<and>
   section_arr ''F[5:]'' [''A'', '' B'', '' C''] (''5'' @ '':'') =
     Inl (IndexOutOfRange 5 3 ''F[5:]'') \<and>
   section_arr ''F[:0]'' [''A'', '' B'', '' C''] ('':'' @ ''0'') = Inl (EndNotPositive ''F[:0]'') \<and>
   section_arr ''F[5]'' [''A'', '' B'', '' C''] ''5'' = Inl (IndexOutOfRange 5 3 ''F[5]'') \<and>
   extractSections ''F[0,5]'' ''0,5'' ''A. B. C.'' = Inl (IndexOutOfRange 5 3 ''F[0,5]'')"
proof -
  let ?s = "[''A'', '' B'', '' C'']"
  have n0: "is_number ''0''" and n1: "is_number ''1''" and n2: "is_number ''2''"
    and n5: "is_number ''5''" by code_simp+
  have v0: "digits_val ''0'' = 0" and v1: "digits_val ''1'' = 1" and v2: "digits_val ''2'' = 2"
    and v5: "digits_val ''5'' = 5" by code_simp+
  have m: "(0::int) \<le> maxInt" "(1::int) \<le> maxInt" "(2::int) \<le> maxInt" "(5::int) \<le> maxInt"
    by (simp_all add: maxInt_def)
  have x: "bothRegex ''x'' = None \<and> fromRegex ''x'' = None \<and> toRegex ''x'' = None \<and>
      singleRegex ''x'' = None" by code_simp
  have c1: "section_arr ''F[x]'' ?s ''x'' = Inl (InvalidSection ''x'' ''F[x]'')"
    using slice_token_checks[where t = "''x''" and full = "''F[x]''" and sents = ?s] x by blast
  have c2: "section_arr ''F[2:1]'' ?s (''2'' @ '':'' @ ''1'') = Inl (StartNotLessThanEnd ''F[2:1]'')"
    using slice_token_checks[where a = "''2''" and b = "''1''" and full = "''F[2:1]''"
        and sents = ?s] n2 n1 m
    by (simp only: v1 v2) simp
  have c3: "section_arr ''F[5:]'' ?s (''5'' @ '':'') = Inl (IndexOutOfRange 5 3 ''F[5:]'')"
    using slice_token_checks[where a = "''5''" and full = "''F[5:]''" and sents = ?s] n5 m
    by (simp only: v5) simp
  have c4: "section_arr ''F[:0]'' ?s ('':'' @ ''0'') = Inl (EndNotPositive ''F[:0]'')"
    using slice_token_checks[where b = "''0''" and full = "''F[:0]''" and sents = ?s] n0 m
    by (simp only: v0) simp
  have c5: "section_arr ''F[5]'' ?s ''5'' = Inl (IndexOutOfRange 5 3 ''F[5]'')"
    using slice_token_checks[where a = "''5''" and full = "''F[5]''" and sents = ?s] n5 m
    by (simp only: v5) simp
  have sp: "Split ''0,5'' CHR '','' = [''0''] @ ''5'' # []" by code_simp
  have pre: "list_all (\<lambda>u. isl (section_arr ''F[0,5]'' (sentances ''A. B. C.'') u) = False) [''0'']"
    by code_simp
  have t: "section_arr ''F[0,5]'' (sentances ''A. B. C.'') ''5'' = Inl (IndexOutOfRange 5 3 ''F[0,5]'')"
    by code_simp
  have c6: "extractSections ''F[0,5]'' ''0,5'' ''A. B. C.'' = Inl (IndexOutOfRange 5 3 ''F[0,5]'')"
    using slice_token_checks[where sections = "''0,5''" and pre = "[''0'']" and t = "''5''"
        and post = "[]" and full = "''F[0,5]''" and c = "''A. B. C.''"
        and e = "IndexOutOfRange 5 3 ''F[0,5]''"] sp pre t by blast
  show ?thesis using c1 c2 c3 c4 c5 c6 by blast
qed

text \<open>
  C3, as the spec states it, trims each selected sentence before the terminator is put
  back. The code trims a sentence only to see whether it is blank and appends it as it was
  split: the second sentence of \<open>A. B. C.\<close> keeps its leading space, so the token \<open>0:2\<close>
  gives \<open>A. B.\<close> and not \<open>A.B.\<close>.
\<close>

theorem sentences_trimmed_counterexample:
  "sentances ''A. B. C.'' = [''A'', '' B'', '' C''] \<and>
   extractSections ''F[0:2]'' ''0:2'' ''A. B. C.'' = Inr ''A. B.'' \<and>
   Trim (concat (map (\<lambda>s. Trim s [CHR '' '', CHR 0x0A] @ ''.'') [''A'', '' B''])) '' '' = ''A.B.''"
  by code_simp

text \<open>
  C3, amended: for every doc text and every slice spec all of whose tokens are valid, each
  sentence that a token selects is appended as it stands in the doc text, untrimmed, and
  followed by the terminator; the results of the tokens are concatenated in the order in
  which the tokens are listed, neither sorted nor deduplicated; and the final string has
  its leading and trailing spaces trimmed.
\<close>

theorem resolve_concatenates_in_order:
  assumes "map (section_arr full (sentances c)) (Split secs CHR '','') = map Inr arrs"
  shows "extractSections full secs c =
     Inr (Trim (concat (map (\<lambda>arr. concat (map (\<lambda>s. s @ ''.'') arr)) arrs)) '' '')"
proof -
  have "sections_loop full (sentances c) (Split secs CHR '','') [] =
      Inr ([] @ concat (map (\<lambda>arr. concat (map (\<lambda>s. s @ ''.'') arr)) arrs))"
    using assms by (intro sections_loop_Inr) (auto dest: sentances_not_blank)
  then show ?thesis
    by (simp add: extractSections_def bind_err_def)
qed

theorem resolve_concatenates_in_order_witness:
  "map (section_arr ''F[1,0,1]'' (sentances ''A. B. C.'')) (Split ''1,0,1'' CHR '','') =
     map Inr [['' B''], [''A''], ['' B'']] \<and>
   extractSections ''F[1,0,1]'' ''1,0,1'' ''A. B. C.'' = Inr ''B.A. B.''"
proof -
  have h: "map (section_arr ''F[1,0,1]'' (sentances ''A. B. C.'')) (Split ''1,0,1'' CHR '','') =
     map Inr [['' B''], [''A''], ['' B'']]" by code_simp
  have v: "Trim (concat (map (\<lambda>arr. concat (map (\<lambda>s. s @ ''.'') arr))
      [['' B''], [''A''], ['' B'']])) '' '' = ''B.A. B.''" by code_simp
  show ?thesis
    using resolve_concatenates_in_order[OF h] h unfolding v by simp
qed

section \<open>The claims about the index build\<close>

lemma scanFields_error:
  "scanFields ext name flds m = Inl e \<Longrightarrow> e = RuntimeIndexPanic 0 0"
proof (induction flds arbitrary: m)
  case Nil
  then show ?case by simp
next
  case (Cons x flds)
  obtain doc names ty where x: "x = AstField doc names ty" by (cases x)
  show ?case
  proof (cases "doc = []")
    case True
    then show ?thesis using Cons x by simp
  next
    case False
    show ?thesis
    proof (cases names)
      case Nil
      then show ?thesis using Cons.prems x False by simp
    next
      case (Cons n ns)
      then show ?thesis using Cons.IH Cons.prems x False by (cases "IsExported ext n") simp_all
    qed
  qed
qed

lemma scanFields_unnamed:
  "AstField fdoc [] ty \<in> set flds \<Longrightarrow> fdoc \<noteq> [] \<Longrightarrow>
   scanFields ext name flds m = Inl (RuntimeIndexPanic 0 0)"
proof (induction ext name flds m rule: scanFields.induct)
  case (1 ext name m)
  then show ?case by simp
next
  case (2 ext name doc names t rest m)
  show ?case
  proof (cases "AstField doc names t = AstField fdoc [] ty")
    case True
    then show ?thesis using "2.prems" by simp
  next
    case False
    then have "AstField fdoc [] ty \<in> set rest" using "2.prems" by auto
    then show ?thesis using "2.IH" "2.prems" by (auto split: list.splits)
  qed
qed

lemma scanDecl_error: "scanDecl ext d m = Inl e \<Longrightarrow> e = RuntimeIndexPanic 0 0"
  by (cases d)
    (auto simp: Let_def split: if_splits option.splits list.splits field.splits spec.splits
      expr.splits dest: scanFields_error)

lemma scanDecls_error: "scanDecls ext ds m = Inl e \<Longrightarrow> e = RuntimeIndexPanic 0 0"
proof (induction ds arbitrary: m)
  case Nil
  then show ?case by simp
next
  case (Cons d ds)
  then show ?case
    by (cases "scanDecl ext d m") (auto simp: bind_err_def dest: scanDecl_error)
qed

lemma scanDecls_panics:
  assumes "d \<in> set ds" and "\<And>m. scanDecl ext d m = Inl (RuntimeIndexPanic 0 0)"
  shows "scanDecls ext ds m = Inl (RuntimeIndexPanic 0 0)"
  using assms(1)
proof (induction ds arbitrary: m)
  case Nil
  then show ?case by simp
next
  case (Cons x ds)
  show ?case
  proof (cases "scanDecl ext x m")
    case (Inl e)
    then show ?thesis using scanDecl_error[OF Inl] by (simp add: bind_err_def)
  next
    case (Inr m')
    then have "x \<noteq> d" using assms(2)[of m] by auto
    then have "d \<in> set ds" using Cons.prems by auto
    then show ?thesis using Cons.IH Inr by (simp add: bind_err_def)
  qed
qed

lemma scanPkg_error: "scanPkg ext p m = Inl e \<Longrightarrow> e = RuntimeIndexPanic 0 0"
proof (induction ext p m rule: scanPkg.induct)
  case (1 ext m)
  then show ?case by simp
next
  case (2 ext fpath f rest m)
  then show ?case
    by (auto simp: bind_err_def split: sum.splits if_splits dest: scanDecls_error)
qed

lemma scanPkg_panics:
  assumes "(fpath, f) \<in> set p" and "\<And>m. scanDecls ext (Decls f) m = Inl (RuntimeIndexPanic 0 0)"
  shows "scanPkg ext p m = Inl (RuntimeIndexPanic 0 0)"
  using assms(1)
proof (induction p arbitrary: m)
  case Nil
  then show ?case by simp
next
  case (Cons x rest)
  obtain fp g where x: "x = (fp, g)" by (cases x)
  let ?m = "if Doc g \<noteq> [] then set_comment m (file_key fp) (Doc g) else m"
  show ?case
  proof (cases "scanDecls ext (Decls g) ?m")
    case (Inl e)
    then show ?thesis using scanDecls_error[OF Inl] x by (simp add: bind_err_def)
  next
    case (Inr m')
    then have "(fp, g) \<noteq> (fpath, f)" using assms(2)[of ?m] by auto
    then have "(fpath, f) \<in> set rest" using Cons.prems x by auto
    then show ?thesis using Cons.IH Inr x by (simp add: bind_err_def)
  qed
qed

lemma scanTests_Inr: "\<exists>m'. scanTests ext p m = Inr m'"
  by (induction ext p m rule: scanTests.induct) auto

lemma scanPkgs_panics:
  assumes "(name, p) \<in> set pkgs" and "\<And>m. scanPkg ext p m = Inl (RuntimeIndexPanic 0 0)"
  shows "scanPkgs ext pkgs m = Inl (RuntimeIndexPanic 0 0)"
  using assms(1)
proof (induction pkgs arbitrary: m)
  case Nil
  then show ?case by simp
next
  case (Cons x rest)
  obtain n q where x: "x = (n, q)" by (cases x)
  obtain m1 where m1: "scanTests ext q (m\<lparr>Name := TrimSuffix n ''_test''\<rparr>) = Inr m1"
    using scanTests_Inr by blast
  show ?case
  proof (cases "scanPkg ext q m1")
    case (Inl e)
    then show ?thesis using scanPkg_error[OF Inl] m1 x by (simp add: bind_err_def)
  next
    case (Inr m2)
    then have "(n, q) \<noteq> (name, p)" using assms(2)[of m1] by auto
    then have "(name, p) \<in> set rest" using Cons.prems x by auto
    then show ?thesis using Cons.IH Inr m1 x by (simp add: bind_err_def)
  qed
qed

text \<open>
  C4 (the code departs from the claim): a type declaration is recorded whether or not it
  has a doc comment, since the branch for type specs lacks the test for an empty doc text
  that the branches for functions, methods, fields and value groups make. The package
  below declares \<^verbatim>\<open>type T int\<close> and \<^verbatim>\<open>func f()\<close>, both without a doc comment: \<open>f\<close>
  gets no entry, \<open>T\<close> gets one with the empty text, and looking \<open>T\<close> up returns the empty
  string where looking \<open>f\<close> up is a not-found error.
\<close>

theorem undocumented_type_is_indexed:
  "map_sum id (\<lambda>m. (Comments m ''T'', Comments m ''f'', DocFunc m ''T'', DocFunc m ''f''))
     (NewCodeMap
        (example_externals
           [(''p'', [(''t.go'', \<lparr>Doc = [], Decls =
               [GenDecl [] [TypeSpec ''T'' (Ident ''int'')], FuncDecl [] None ''f'']\<rparr>)])])
        ''p'' ''d'')
   = Inr (Some [], None, Inr [], Inl (DocNotFound ''f''))"
  by (simp add: NewCodeMap_def scanDir_def example_externals_def bind_err_def set_comment_def
      TrimSuffix_def HasSuffix_def file_key_def DocFunc_def docRegex_at_def is_word_def Trim_def)

text \<open>
  C7: a documented method is recorded under the printed host type, a dot and the method
  name; a receiver type written with a star is replaced by the type under the star before
  it is printed, so for a host type \<open>x\<close> that is not itself a star expression the key, and
  the index after the declaration, are the same for the receivers \<open>*x\<close> and \<open>x\<close>. The
  entry under that key is the method's doc text.
\<close>

theorem method_key_normalised:
  assumes "doc \<noteq> []" and "\<forall>y. x \<noteq> StarExpr y"
  shows "scanDecl ext (FuncDecl doc (Some (AstField fd ns (StarExpr x) # rs)) name) m =
           Inr (set_comment m (Fprint ext x @ ''.'' @ name) doc)
       \<and> scanDecl ext (FuncDecl doc (Some (AstField fd' ns' x # rs')) name) m =
           Inr (set_comment m (Fprint ext x @ ''.'' @ name) doc)
       \<and> Comments (set_comment m (Fprint ext x @ ''.'' @ name) doc)
           (Fprint ext x @ ''.'' @ name) = Some doc"
  using assms by (cases x) (simp_all add: set_comment_def)

theorem method_key_normalised_witness:
  "''M doc.'' \<noteq> [] \<and> (\<forall>y. Ident ''T'' \<noteq> StarExpr y) \<and>
   scanDecl (example_externals []) (FuncDecl ''M doc.''
       (Some [AstField [] [''t''] (StarExpr (Ident ''T''))]) ''M'') (example_index Map.empty) =
     Inr (set_comment (example_index Map.empty) ''T.M'' ''M doc.'') \<and>
   scanDecl (example_externals []) (FuncDecl ''M doc.''
       (Some [AstField [] [''t''] (Ident ''T'')]) ''M'') (example_index Map.empty) =
     Inr (set_comment (example_index Map.empty) ''T.M'' ''M doc.'') \<and>
   Comments (set_comment (example_index Map.empty) ''T.M'' ''M doc.'') ''T.M'' = Some ''M doc.''"
proof -
  have h1: "''M doc.'' \<noteq> []" by simp
  have h2: "\<forall>y. Ident ''T'' \<noteq> StarExpr y" by simp
  have k: "Fprint (example_externals []) (Ident ''T'') @ ''.'' @ ''M'' = ''T.M''"
    by (simp add: example_externals_def example_Fprint_def)
  show ?thesis
    using method_key_normalised[OF h1 h2, of "example_externals []" "[]" "[''t'']" "[]" "''M''"
        "example_index Map.empty" "[]" "[''t'']" "[]"]
    unfolding k by simp
qed

text \<open>
  C8, as stated, makes the build panic whenever a scanned file holds a struct type with a
  documented field that has no name. The scan reads the fields of a struct type only when
  it is the type of the first spec of a top-level declaration: in the group below the
  struct type \<open>B\<close> is the second spec, its documented embedded field is never read, and the
  build succeeds.
\<close>

theorem embedded_field_in_later_spec_counterexample:
  "map_sum id (\<lambda>m. (Comments m ''A'', Comments m ''B''))
     (NewCodeMap
        (example_externals
           [(''p'', [(''t.go'', \<lparr>Doc = [], Decls =
               [GenDecl ''Types.'' [TypeSpec ''A'' (Ident ''int''),
                  TypeSpec ''B'' (StructType [AstField ''Embedded.'' [] (Ident ''T'')])]]\<rparr>)])])
        ''p'' ''d'')
   = Inr (Some ''Types.'', None)"
  by (simp add: NewCodeMap_def scanDir_def example_externals_def bind_err_def set_comment_def
      TrimSuffix_def HasSuffix_def)

text \<open>
  C8, amended: if the parse succeeds and a scanned file has a top-level declaration whose
  first spec declares a struct type with a field that carries a doc comment and declares
  no name, the index build neither returns a parse error nor skips the field: it panics
  with the index 0 out of range for length 0 when it reads the field's first name, so the
  build is not total over the inputs that parse.
\<close>

theorem embedded_documented_field_panics:
  assumes "ParseDir ext d = Inr pkgs"
    and "(pname, p) \<in> set pkgs"
    and "(fpath, f) \<in> set p"
    and "GenDecl doc (TypeSpec name (StructType flds) # rest) \<in> set (Decls f)"
    and "AstField fdoc [] ty \<in> set flds"
    and "fdoc \<noteq> []"
  shows "NewCodeMap ext pk d = Inl (RuntimeIndexPanic 0 0)"
proof -
  have "\<And>m. scanDecl ext (GenDecl doc (TypeSpec name (StructType flds) # rest)) m =
      Inl (RuntimeIndexPanic 0 0)"
    using scanFields_unnamed[OF assms(5,6)] by simp
  then have "\<And>m. scanDecls ext (Decls f) m = Inl (RuntimeIndexPanic 0 0)"
    using scanDecls_panics[OF assms(4)] by blast
  then have "\<And>m. scanPkg ext p m = Inl (RuntimeIndexPanic 0 0)"
    using scanPkg_panics[OF assms(3)] by blast
  then have "\<And>m. scanPkgs ext pkgs m = Inl (RuntimeIndexPanic 0 0)"
    using scanPkgs_panics[OF assms(2)] by blast
  then show ?thesis
    using assms(1) by (simp add: NewCodeMap_def scanDir_def)
qed

theorem embedded_documented_field_panics_witness:
  "NewCodeMap
     (example_externals
        [(''p'', [(''t.go'', \<lparr>Doc = [], Decls =
            [GenDecl ''B doc.''
               [TypeSpec ''B'' (StructType [AstField ''Embedded.'' [] (Ident ''T'')])]]\<rparr>)])])
     ''p'' ''d''
   = Inl (RuntimeIndexPanic 0 0)"
proof -
  let ?f = "\<lparr>Doc = [], Decls =
            [GenDecl ''B doc.''
               [TypeSpec ''B'' (StructType [AstField ''Embedded.'' [] (Ident ''T'')])]]\<rparr>"
  let ?pkgs = "[(''p'', [(''t.go'', ?f)])]"
  have h1: "ParseDir (example_externals ?pkgs) ''d'' = Inr ?pkgs"
    by (simp add: example_externals_def)
  have h2: "(''p'', [(''t.go'', ?f)]) \<in> set ?pkgs" by simp
  have h3: "(''t.go'', ?f) \<in> set [(''t.go'', ?f)]" by simp
  have h4: "GenDecl ''B doc.''
      (TypeSpec ''B'' (StructType [AstField ''Embedded.'' [] (Ident ''T'')]) # []) \<in> set (Decls ?f)"
    by simp
  have h5: "AstField ''Embedded.'' [] (Ident ''T'') \<in> set [AstField ''Embedded.'' [] (Ident ''T'')]"
    by simp
  have h6: "''Embedded.'' \<noteq> []" by simp
  show ?thesis
    by (rule embedded_documented_field_panics[OF h1 h2 h3 h4 h5 h6])
qed

text \<open>
  C10: of a top-level declaration with several specs the scan looks at the first spec
  only. Whatever specs follow it, with whatever names, types and doc comments, the index
  after the declaration (or the panic) is the one that the first spec alone gives, so no
  later spec brings a key into the index.
\<close>

theorem gen_decl_first_spec_only:
  "scanDecl ext (GenDecl doc (s # rest)) m = scanDecl ext (GenDecl doc [s]) m"
  by simp

lemma gen_decl_group_example:
  "map_sum id (\<lambda>m. (Comments m ''A'', Comments m ''B'', Comments m ''B.F''))
     (scanDecl (example_externals [])
        (GenDecl ''Group.'' [TypeSpec ''A'' (Ident ''int''),
           TypeSpec ''B'' (StructType [AstField ''F doc.'' [''F''] (Ident ''int'')])])
        (example_index Map.empty))
   = Inr (Some ''Group.'', None, None)"
  by (simp add: example_externals_def example_index_def set_comment_def)

section \<open>The claims about the lookups\<close>










lemma docRegex_at_word: "docRegex_at s = Some (w, sp) \<Longrightarrow> list_all is_word w"
  by (auto simp: docRegex_at_def Let_def list_all_iff split: list.splits if_splits
      dest: set_takeWhileD)

lemma docRegex_word: "docRegex s = Some (w, sp) \<Longrightarrow> list_all is_word w"
proof (induction s)
  case Nil
  then show ?case by simp
next
  case (Cons c cs)
  then show ?case
    by (cases "docRegex_at (c # cs)") (auto dest: docRegex_at_word)
qed

lemma DocFunc_other_key:
  assumes "\<not> list_all is_word k" and "r \<noteq> k"
  shows "DocFunc (m\<lparr>Comments := (Comments m)(k := v)\<rparr>) r = DocFunc m r"
proof (cases "docRegex r")
  case None
  then show ?thesis using assms(2) by (simp add: DocFunc_def)
next
  case (Some p)
  obtain w sp where p: "p = (w, sp)" by (cases p)
  then have "w \<noteq> k" using docRegex_word[of r w sp] Some assms(1) by auto
  then show ?thesis using Some p by (simp add: DocFunc_def)
qed

lemma docRegex_at_no_bracket:
  assumes "CHR ''['' \<notin> set u" and "x \<in> set u" and "\<not> is_word x"
  shows "docRegex_at (u @ t) = None"
proof -
  have d: "dropWhile is_word (u @ t) = dropWhile is_word u @ t"
    using assms(2,3) by (rule dropWhile_append1)
  have "dropWhile is_word u \<noteq> []"
    using assms(2,3) by (auto simp: dropWhile_eq_Nil_conv)
  then obtain y ys where y: "dropWhile is_word u = y # ys"
    by (cases "dropWhile is_word u") auto
  then have "y \<in> set u" by (metis list.set_intros(1) set_dropWhileD)
  then have "y \<noteq> CHR ''[''" using assms(1) by auto
  then show ?thesis by (simp add: docRegex_at_def d y)
qed

lemma docRegex_skip:
  "CHR ''['' \<notin> set u \<Longrightarrow> \<not> is_word c \<Longrightarrow> c \<noteq> CHR ''['' \<Longrightarrow> docRegex (u @ c # t) = docRegex t"
proof (induction u)
  case Nil
  then show ?case by (simp add: docRegex_at_def)
next
  case (Cons x u)
  have "docRegex_at (((x # u) @ [c]) @ t) = None"
    using Cons.prems by (intro docRegex_at_no_bracket[where x = c]) auto
  then show ?case using Cons by simp
qed

lemma docRegex_at_match:
  assumes "seg \<noteq> []" and "list_all is_word seg" and "sp \<noteq> []" and "list_all is_spec_char sp"
  shows "docRegex (seg @ CHR ''['' # sp @ CHR '']'' # rest) = Some (seg, sp)"
proof -
  have nw: "\<not> is_word CHR ''[''" by (simp add: is_word_def)
  have ns: "\<not> is_spec_char CHR '']''" by (simp add: is_spec_char_def is_digit_def)
  have 1: "takeWhile is_word (seg @ CHR ''['' # sp @ CHR '']'' # rest) = seg"
    and 2: "dropWhile is_word (seg @ CHR ''['' # sp @ CHR '']'' # rest) = CHR ''['' # sp @ CHR '']'' # rest"
    using assms(2) nw by (induction seg) auto
  have 3: "takeWhile is_spec_char (sp @ CHR '']'' # rest) = sp"
    and 4: "dropWhile is_spec_char (sp @ CHR '']'' # rest) = CHR '']'' # rest"
    using assms(4) ns by (induction sp) auto
  have "docRegex_at (seg @ CHR ''['' # sp @ CHR '']'' # rest) = Some (seg, sp)"
    using assms(1,3) by (simp add: docRegex_at_def 1 2 3 4)
  then show ?thesis using assms(1) by (cases seg) simp_all
qed

text \<open>
  C9, as stated, lets the pattern capture the trailing word segment of every key that has
  a byte outside the word class. Two keys show otherwise. A function named \<open>caf\<close> followed
  by the two bytes of an accented letter has no word byte before the bracket, so the
  pattern finds nothing and the whole request is looked up and not found. The file key
  \<open>a[0]_go\<close> holds a slice request of its own, which is the leftmost match, so the request
  \<open>a[0]_go[1]\<close> returns the first sentence of the doc text of \<open>a\<close>.
\<close>

theorem trailing_segment_counterexample:
  "\<not> list_all is_word (''caf'' @ [CHR 0xC3, CHR 0xA9]) \<and>
   DocFunc (example_index [''caf'' @ [CHR 0xC3, CHR 0xA9] \<mapsto> ''Doc.''])
       (''caf'' @ [CHR 0xC3, CHR 0xA9] @ ''[0]'') =
     Inl (DocNotFound (''caf'' @ [CHR 0xC3, CHR 0xA9] @ ''[0]'')) \<and>
   \<not> list_all is_word ''a[0]_go'' \<and>
   DocFunc (example_index [''a[0]_go'' \<mapsto> ''File.'', ''a'' \<mapsto> ''First. Second.''])
       ''a[0]_go[1]'' = Inr ''First.''"
proof -
  have 1: "\<not> list_all is_word (''caf'' @ [CHR 0xC3, CHR 0xA9])"
    and 2: "\<not> list_all is_word ''a[0]_go''" by (simp_all add: is_word_def)
  have 3: "docRegex (''caf'' @ [CHR 0xC3, CHR 0xA9] @ ''[0]'') = None" by code_simp
  have 4: "docRegex ''a[0]_go[1]'' = Some (''a'', ''0'')" by code_simp
  have 5: "extractSections ''a[0]_go[1]'' ''0'' ''First. Second.'' = Inr ''First.''" by code_simp
  have 6: "DocFunc (example_index [''caf'' @ [CHR 0xC3, CHR 0xA9] \<mapsto> ''Doc.''])
       (''caf'' @ [CHR 0xC3, CHR 0xA9] @ ''[0]'') =
     Inl (DocNotFound (''caf'' @ [CHR 0xC3, CHR 0xA9] @ ''[0]''))"
    unfolding DocFunc_def 3 by (simp add: example_index_def)
  have 7: "DocFunc (example_index [''a[0]_go'' \<mapsto> ''File.'', ''a'' \<mapsto> ''First. Second.''])
       ''a[0]_go[1]'' = Inr ''First.''"
    unfolding DocFunc_def 4 using 5 by (simp add: example_index_def)
  show ?thesis using 1 2 6 7 by blast
qed

text \<open>
  C9, amended: for every indexed key with a byte outside the word class, a doc lookup that
  appends a slice spec never resolves against that key: whatever is stored under the key,
  or nothing, the lookup gives the same. When moreover the key has no opening bracket and
  ends in a word segment (as a method key \<open>Type.Method\<close> and a field key \<open>Type.Field\<close>
  do), the pattern captures that trailing word segment as the symbol name: the lookup fails
  with the not-found error for that segment or, if a symbol bears that segment as its full
  name, resolves the slice against the doc text of that symbol.
\<close>

theorem sliced_lookup_misses_key:
  assumes "\<not> list_all is_word k" and "sp \<noteq> []" and "list_all is_spec_char sp"
  shows "DocFunc (m\<lparr>Comments := (Comments m)(k := v)\<rparr>) (k @ ''['' @ sp @ '']'') =
           DocFunc m (k @ ''['' @ sp @ '']'')
       \<and> (k = pre @ c # seg \<and> CHR ''['' \<notin> set k \<and> \<not> is_word c \<and> seg \<noteq> [] \<and>
          list_all is_word seg \<longrightarrow>
            DocFunc m (k @ ''['' @ sp @ '']'') =
              (case Comments m seg of
                 None \<Rightarrow> Inl (DocNotFoundIn seg (k @ ''['' @ sp @ '']''))
               | Some d \<Rightarrow> extractSections (k @ ''['' @ sp @ '']'') sp d))"
proof (intro conjI impI)
  show "DocFunc (m\<lparr>Comments := (Comments m)(k := v)\<rparr>) (k @ ''['' @ sp @ '']'') =
           DocFunc m (k @ ''['' @ sp @ '']'')"
    using assms(1) by (intro DocFunc_other_key) auto
next
  assume h: "k = pre @ c # seg \<and> CHR ''['' \<notin> set k \<and> \<not> is_word c \<and> seg \<noteq> [] \<and>
          list_all is_word seg"
  then have "docRegex (pre @ c # (seg @ CHR ''['' # sp @ CHR '']'' # [])) =
      docRegex (seg @ CHR ''['' # sp @ CHR '']'' # [])"
    by (intro docRegex_skip) auto
  also have "\<dots> = Some (seg, sp)"
    using h assms(2,3) by (intro docRegex_at_match) auto
  finally have "docRegex (k @ ''['' @ sp @ '']'') = Some (seg, sp)"
    using h by simp
  then show "DocFunc m (k @ ''['' @ sp @ '']'') =
              (case Comments m seg of
                 None \<Rightarrow> Inl (DocNotFoundIn seg (k @ ''['' @ sp @ '']''))
               | Some d \<Rightarrow> extractSections (k @ ''['' @ sp @ '']'') sp d)"
    by (simp add: DocFunc_def split: option.splits)
qed

theorem sliced_lookup_misses_key_witness:
  "\<not> list_all is_word ''T.M'' \<and> ''0'' \<noteq> [] \<and> list_all is_spec_char ''0'' \<and>
   DocFunc (example_index [''T.M'' \<mapsto> ''Doc.'']) (''T.M'' @ ''['' @ ''0'' @ '']'') =
     Inl (DocNotFoundIn ''M'' ''T.M[0]'') \<and>
   DocFunc (example_index [''T.M'' \<mapsto> ''Doc.'', ''M'' \<mapsto> ''Other. More.''])
       (''T.M'' @ ''['' @ ''0'' @ '']'') = Inr ''Other.''"
proof -
  let ?m1 = "example_index [''T.M'' \<mapsto> ''Doc.'']"
  let ?m2 = "example_index [''T.M'' \<mapsto> ''Doc.'', ''M'' \<mapsto> ''Other. More.'']"
  let ?r = "''T.M'' @ ''['' @ ''0'' @ '']''"
  have h1: "\<not> list_all is_word ''T.M''" by (simp add: is_word_def)
  have h2: "''0'' \<noteq> []" by simp
  have h3: "list_all is_spec_char ''0''" by (simp add: is_spec_char_def is_digit_def)
  have h4: "''T.M'' = ''T'' @ CHR ''.'' # ''M'' \<and> CHR ''['' \<notin> set ''T.M'' \<and>
      \<not> is_word CHR ''.'' \<and> ''M'' \<noteq> [] \<and> list_all is_word ''M''"
    by (simp add: is_word_def)
  have c1: "Comments ?m1 ''M'' = None" by (simp add: example_index_def)
  have c2: "Comments ?m2 ''M'' = Some ''Other. More.''" by (simp add: example_index_def)
  have e: "extractSections ?r ''0'' ''Other. More.'' = Inr ''Other.''" by code_simp
  have "DocFunc ?m1 ?r =
      (case Comments ?m1 ''M'' of None \<Rightarrow> Inl (DocNotFoundIn ''M'' ?r)
       | Some d \<Rightarrow> extractSections ?r ''0'' d)"
    using sliced_lookup_misses_key[OF h1 h2 h3, where pre = "''T''" and c = "CHR ''.''"
        and seg = "''M''" and m = ?m1, THEN conjunct2] h4 by (rule mp)
  then have a: "DocFunc ?m1 ?r = Inl (DocNotFoundIn ''M'' ''T.M[0]'')"
    unfolding c1 by simp
  have "DocFunc ?m2 ?r =
      (case Comments ?m2 ''M'' of None \<Rightarrow> Inl (DocNotFoundIn ''M'' ?r)
       | Some d \<Rightarrow> extractSections ?r ''0'' d)"
    using sliced_lookup_misses_key[OF h1 h2 h3, where pre = "''T''" and c = "CHR ''.''"
        and seg = "''M''" and m = ?m2, THEN conjunct2] h4 by (rule mp)
  then have b: "DocFunc ?m2 ?r = Inr ''Other.''"
    unfolding c2 using e by simp
  show ?thesis using h1 h2 h3 a b by blast
qed

end
